theory Spec2Isabelle
  imports Complex_Main "HOL-Library.Sublist"
begin

section \<open>Aurum Atelier try-on widget: a model of script.js\<close>

text \<open>
  The script is a set of event handlers over a handful of global variables. Handlers run
  to completion, one at a time, so each handler is a function from the global state to
  the global state, and the page is the fold of the handlers over the events the
  browser delivers.

  What is kept of the browser:
  \<^item> \<open>new Image()\<close> allocates an object. \<open>Array.prototype.indexOf\<close> compares
    objects by reference, so an image carries the number of its allocation
    (\<open>imgId\<close>) and \<open>nextObjId\<close> is the allocation counter. The images of the
    thumbnail buttons are never compared and take no number.
  \<^item> \<open>setTimeout\<close> puts a callback in \<open>pendingTimers\<close> under a new timer id and
    \<open>clearTimeout\<close> removes it. Only the callback of \<open>runAutoStep\<close> is tracked: the
    other two timeouts of the script only restyle an element.
  \<^item> \<open>alert\<close> and \<open>showGallery\<close> are logged in \<open>alerts\<close> and \<open>galleryShown\<close>.
  \<^item> \<open>canvasElement.toDataURL\<close> is opaque. A snapshot records the two images that
    were selected when it was taken.
  \<^item> Landmark coordinates are IEEE 754 binary64 numbers (\<open>double\<close> below): a
    subtraction gives the exact difference rounded to the nearest double, ties to even,
    and the literal \<open>0.04\<close> is the double nearest to 1/25. The two zeros are one
    value here: the script only subtracts and compares positions, which cannot tell them
    apart. \<open>Date.now()\<close> is an integer number of milliseconds, far below
    \<open>2 ^ 53\<close>, so the clock arithmetic is exact and is done on integers.
  The source file holds two revisions of the script, one after the other. They differ
  in comments, in the lightbox and in \<open>takeSnapshot\<close>, which only the later one
  has; every other function modelled here reads the same in both.

  The page (index.html) is not part of the sources. The elements that the script looks
  up by id are taken to exist, as the script itself does when it writes
  \<open>btn.textContent\<close> without a check. Writes to styles, classes and texts are left out,
  and so are the camera loop and the face mesh handler, which only draws.
  Own properties of \<open>preloadedAssets\<close> and \<open>IMAGE_COUNTS\<close> are modelled, inherited
  ones (such as \<open>constructor\<close>) are not.
\<close>

subsection \<open>Numbers\<close>

text \<open>
  A double is \<open>NaN\<close>, an infinity (\<open>Infinity True\<close> is the negative one) or a finite
  value, held as the rational number it denotes.
\<close>

datatype double = NaN | Infinity bool | Finite rat

text \<open>The number of binary digits of a positive integer.\<close>

function bitLength :: "int \<Rightarrow> int" where
  "bitLength n = (if n \<le> 0 then 0 else 1 + bitLength (n div 2))"
  by pat_completeness auto
termination
  by (relation "measure nat") auto

declare bitLength.simps [simp del]

definition pow2 :: "int \<Rightarrow> rat" where
  "pow2 e = (if 0 \<le> e then 2 ^ nat e else 1 / 2 ^ nat (- e))"

text \<open>
  For positive \<open>a\<close>, the exponent \<open>e\<close> with \<open>2 ^ e \<le> a < 2 ^ (e + 1)\<close>: one less
  than the number of digits of the integer part when \<open>a\<close> is at least 1, and otherwise
  minus the least \<open>j\<close> with \<open>1 / a \<le> 2 ^ j\<close>.
\<close>

definition floorLog2 :: "rat \<Rightarrow> int" where
  "floorLog2 a =
     (if 1 \<le> a then bitLength \<lfloor>a\<rfloor> - 1 else - bitLength (\<lceil>1 / a\<rceil> - 1))"

definition roundHalfEven :: "rat \<Rightarrow> int" where
  "roundHalfEven r =
     (let f = \<lfloor>r\<rfloor>; d = r - of_int f
      in if d < 1 / 2 then f
         else if 1 / 2 < d then f + 1
         else if even f then f else f + 1)"

text \<open>
  Rounding an exact value to binary64. The spacing of the doubles around \<open>q\<close> is
  \<open>2 ^ (e - 52)\<close>, where \<open>e\<close> is the exponent of \<open>q\<close> and at least -1022 (below
  that the numbers are subnormal and evenly spaced). A result of \<open>2 ^ 1024\<close> or more
  overflows to an infinity.
\<close>

definition round64 :: "rat \<Rightarrow> double" where
  "round64 q =
     (if q = 0 then Finite 0
      else
        (let a = \<bar>q\<bar>;
             e = max (floorLog2 a) (- 1022);
             quantum = pow2 (e - 52);
             v = of_int (roundHalfEven (a / quantum)) * quantum
         in if 1024 \<le> floorLog2 v then Infinity (q < 0) else Finite (sgn q * v)))"

text \<open>The operators \<open>-\<close> (binary and unary) and \<open><\<close> on numbers; \<open>a > b\<close> is \<open>b < a\<close>.\<close>

fun dsub :: "double \<Rightarrow> double \<Rightarrow> double" where
  "dsub NaN y = NaN"
| "dsub x NaN = NaN"
| "dsub (Infinity n) (Infinity m) = (if n = m then NaN else Infinity n)"
| "dsub (Infinity n) (Finite b) = Infinity n"
| "dsub (Finite a) (Infinity m) = Infinity (\<not> m)"
| "dsub (Finite a) (Finite b) = round64 (a - b)"

fun dneg :: "double \<Rightarrow> double" where
  "dneg NaN = NaN"
| "dneg (Infinity n) = Infinity (\<not> n)"
| "dneg (Finite a) = Finite (- a)"

fun dlt :: "double \<Rightarrow> double \<Rightarrow> bool" where
  "dlt NaN y = False"
| "dlt x NaN = False"
| "dlt (Infinity n) (Infinity m) = (n \<and> \<not> m)"
| "dlt (Infinity n) (Finite b) = n"
| "dlt (Finite a) (Infinity m) = (\<not> m)"
| "dlt (Finite a) (Finite b) = (a < b)"

subsection \<open>Values\<close>

record image =
  imgId :: nat
  imgSrc :: string
  crossOrigin :: "string option"

text \<open>What a variable holding an image can hold.\<close>

datatype slot = Null | Undefined | Img image

record snapshot =
  shotEarring :: slot
  shotNecklace :: slot

text \<open>A thumbnail button: the \<open>type\<close> and \<open>i\<close> its click handler has captured.\<close>

record thumb =
  thumbSrc :: string
  thumbType :: string
  thumbIdx :: nat

text \<open>
  One result of the hand detector: the horizontal position of landmark 8 of the first
  hand, if there is a hand, and the clock at the time of the callback.
\<close>

record frame =
  handX :: "double option"
  now :: int

datatype js_error = TypeError

record state =
  earringImg :: slot
  necklaceImg :: slot
  currentType :: string
  isProcessingHand :: bool
  lastGestureTime :: int
  previousHandX :: "double option"
  autoTryRunning :: bool
  autoSnapshots :: "snapshot list"
  autoTryIndex :: nat
  autoTryTimeout :: "nat option"
  preloadedAssets :: "string \<rightharpoonup> image list"
  nextObjId :: nat
  pendingTimers :: "nat list"
  timerCount :: nat
  jewelryOptions :: "thumb list"
  alerts :: "string list"
  galleryShown :: "snapshot list list"

definition IMAGE_COUNTS :: "string \<rightharpoonup> nat" where
  "IMAGE_COUNTS = map_of
     [(''gold_earrings'', 5), (''gold_necklaces'', 5),
      (''diamond_earrings'', 5), (''diamond_necklaces'', 6)]"

definition GESTURE_COOLDOWN :: int where
  "GESTURE_COOLDOWN = 800"

definition SWIPE_THRESHOLD :: double where
  "SWIPE_THRESHOLD = round64 (4 / 100)"

definition init_state :: state where
  "init_state = \<lparr>earringImg = Null, necklaceImg = Null, currentType = '''',
     isProcessingHand = False, lastGestureTime = 0, previousHandX = None,
     autoTryRunning = False, autoSnapshots = [], autoTryIndex = 0,
     autoTryTimeout = None, preloadedAssets = Map.empty, nextObjId = 0,
     pendingTimers = [], timerCount = 0, jewelryOptions = [], alerts = [],
     galleryShown = []\<rparr>"

subsection \<open>JavaScript primitives\<close>

text \<open>\<open>String.prototype.includes\<close>: the argument occurs as a contiguous substring.\<close>

fun str_includes :: "string \<Rightarrow> string \<Rightarrow> bool" where
  "str_includes [] sub = (sub = [])"
| "str_includes (c # cs) sub = (prefix sub (c # cs) \<or> str_includes cs sub)"

text \<open>The decimal text of a number, as a template literal prints it.\<close>

fun decimal :: "nat \<Rightarrow> string" where
  "decimal n =
     (if n < 10 then [char_of (48 + n)]
      else decimal (n div 10) @ [char_of (48 + n mod 10)])"

definition assetSrc :: "string \<Rightarrow> nat \<Rightarrow> string" where
  "assetSrc type i = type @ ''/'' @ decimal i @ ''.png''"

text \<open>
  \<open>Array.prototype.indexOf\<close>: the first position holding the value, or -1. Elements
  of a catalog are image objects, so \<open>null\<close> and \<open>undefined\<close> are never found.
\<close>

fun indexOf :: "image list \<Rightarrow> slot \<Rightarrow> int" where
  "indexOf [] v = -1"
| "indexOf (x # xs) v =
     (if Img x = v then 0
      else (let r = indexOf xs v in if r < 0 then -1 else r + 1))"

text \<open>
  The remainder operator \<open>%\<close> on integers: the result has the sign of the dividend,
  and a zero divisor gives \<open>NaN\<close> (\<open>None\<close>).
\<close>

definition js_rem :: "int \<Rightarrow> int \<Rightarrow> int option" where
  "js_rem a b = (if b = 0 then None else Some (sgn a * (\<bar>a\<bar> mod \<bar>b\<bar>)))"

text \<open>Reading \<open>list[k]\<close>: \<open>undefined\<close> outside the array and at \<open>NaN\<close>.\<close>

definition js_get :: "image list \<Rightarrow> int option \<Rightarrow> slot" where
  "js_get xs k =
     (case k of
        None \<Rightarrow> Undefined
      | Some i \<Rightarrow> if 0 \<le> i \<and> i < int (length xs) then Img (xs ! nat i) else Undefined)"

text \<open>
  Timer ids are positive integers, each larger than the ones given out before:
  \<open>timerCount\<close> is the number of timers created so far.
\<close>

definition setTimeout :: "state \<Rightarrow> nat \<times> state" where
  "setTimeout s =
     (Suc (timerCount s),
      s\<lparr>pendingTimers := pendingTimers s @ [Suc (timerCount s)],
        timerCount := Suc (timerCount s)\<rparr>)"

definition clearTimeout :: "nat \<Rightarrow> state \<Rightarrow> state" where
  "clearTimeout t s = s\<lparr>pendingTimers := filter (\<lambda>u. u \<noteq> t) (pendingTimers s)\<rparr>"

subsection \<open>Asset cache\<close>

text \<open>
  The loop of \<open>preloadCategory\<close>, from \<open>i\<close> up to \<open>count\<close>: the allocation counter
  and the array being filled are threaded through.
\<close>

function preloadLoop :: "string \<Rightarrow> nat \<Rightarrow> nat \<Rightarrow> nat \<times> image list \<Rightarrow> nat \<times> image list" where
  "preloadLoop type count i (nid, acc) =
     (if i \<le> count
      then preloadLoop type count (Suc i)
             (Suc nid, acc @ [\<lparr>imgId = nid, imgSrc = assetSrc type i,
                                crossOrigin = Some ''anonymous''\<rparr>])
      else (nid, acc))"
  by pat_completeness auto
termination
  by (relation "measure (\<lambda>(type, count, i, st). Suc count - i)") auto

declare preloadLoop.simps [simp del]

text \<open>
  An array is truthy even when empty, so a category is filled once. A type that
  \<open>IMAGE_COUNTS\<close> does not list has the count \<open>undefined\<close>, the loop test is false
  at once and the catalog stays empty.
\<close>

definition preloadCategory :: "string \<Rightarrow> state \<Rightarrow> state" where
  "preloadCategory type s =
     (case preloadedAssets s type of
        Some _ \<Rightarrow> s
      | None \<Rightarrow>
          (case IMAGE_COUNTS type of
             None \<Rightarrow> s\<lparr>preloadedAssets := (preloadedAssets s)(type \<mapsto> [])\<rparr>
           | Some count \<Rightarrow>
               (let (nid, imgs) = preloadLoop type count 1 (nextObjId s, [])
                in s\<lparr>preloadedAssets := (preloadedAssets s)(type \<mapsto> imgs),
                     nextObjId := nid\<rparr>)))"

subsection \<open>Navigation and selection\<close>

definition currentImg :: "state \<Rightarrow> slot" where
  "currentImg s =
     (if str_includes (currentType s) ''earrings'' then earringImg s else necklaceImg s)"

definition navigateJewelry :: "int \<Rightarrow> state \<Rightarrow> state" where
  "navigateJewelry dir s =
     (if currentType s = [] then s
      else case preloadedAssets s (currentType s) of
        None \<Rightarrow> s
      | Some list \<Rightarrow>
          (let idx = indexOf list (currentImg s);
               nextIdx = js_rem (idx + dir + int (length list)) (int (length list));
               nextItem = js_get list nextIdx
           in if str_includes (currentType s) ''earrings''
              then s\<lparr>earringImg := nextItem\<rparr>
              else s\<lparr>necklaceImg := nextItem\<rparr>))"

definition selectJewelryType :: "string \<Rightarrow> state \<Rightarrow> state" where
  "selectJewelryType type s =
     (let s1 = preloadCategory type (s\<lparr>currentType := type\<rparr>)
      in s1\<lparr>jewelryOptions :=
              (case IMAGE_COUNTS type of
                 None \<Rightarrow> []
               | Some count \<Rightarrow>
                   map (\<lambda>i. \<lparr>thumbSrc = assetSrc type i, thumbType = type, thumbIdx = i\<rparr>)
                     [1..<Suc count])\<rparr>)"

text \<open>
  The click handler of a thumbnail. Reading an index of a missing catalog throws, before
  anything is assigned.
\<close>

definition thumbClick :: "thumb \<Rightarrow> state \<Rightarrow> js_error + state" where
  "thumbClick b s =
     (case preloadedAssets s (thumbType b) of
        None \<Rightarrow> Inl TypeError
      | Some list \<Rightarrow>
          (let fullImg = js_get list (Some (int (thumbIdx b) - 1))
           in if str_includes (thumbType b) ''earrings''
              then Inr (s\<lparr>earringImg := fullImg\<rparr>)
              else Inr (s\<lparr>necklaceImg := fullImg\<rparr>)))"

subsection \<open>Auto capture\<close>

definition showGallery :: "state \<Rightarrow> state" where
  "showGallery s = s\<lparr>galleryShown := galleryShown s @ [autoSnapshots s]\<rparr>"

definition captureToGallery :: "state \<Rightarrow> state" where
  "captureToGallery s =
     s\<lparr>autoSnapshots := autoSnapshots s @
          [\<lparr>shotEarring = earringImg s, shotNecklace = necklaceImg s\<rparr>]\<rparr>"

text \<open>The manual snapshot button of the later revision.\<close>

definition takeSnapshot :: "state \<Rightarrow> state" where
  "takeSnapshot s = showGallery (captureToGallery s)"

definition stopAutoTry :: "state \<Rightarrow> state" where
  "stopAutoTry s =
     (let s1 = s\<lparr>autoTryRunning := False\<rparr>;
          s2 = (case autoTryTimeout s1 of
                  None \<Rightarrow> s1
                | Some t \<Rightarrow> if t = 0 then s1 else clearTimeout t s1)
      in if length (autoSnapshots s2) > 0 then showGallery s2 else s2)"

text \<open>
  \<open>runAutoStep\<close> up to the point where it has armed its timer. What the timer runs is
  \<open>autoStepCallback\<close>, which ends by calling \<open>runAutoStep\<close> again.
\<close>

definition runAutoStep :: "state \<Rightarrow> state" where
  "runAutoStep s =
     (if \<not> autoTryRunning s then s
      else case preloadedAssets s (currentType s) of
        None \<Rightarrow> stopAutoTry s
      | Some assets \<Rightarrow>
          if autoTryIndex s \<ge> length assets then stopAutoTry s
          else
            (let targetImg = Img (assets ! autoTryIndex s);
                 s1 = (if str_includes (currentType s) ''earrings''
                       then s\<lparr>earringImg := targetImg\<rparr>
                       else s\<lparr>necklaceImg := targetImg\<rparr>);
                 (t, s2) = setTimeout s1
             in s2\<lparr>autoTryTimeout := Some t\<rparr>))"

definition autoStepCallback :: "state \<Rightarrow> state" where
  "autoStepCallback s =
     (let s1 = captureToGallery s;
          s2 = s1\<lparr>autoTryIndex := Suc (autoTryIndex s1)\<rparr>
      in runAutoStep s2)"

definition startAutoTry :: "state \<Rightarrow> state" where
  "startAutoTry s =
     runAutoStep (s\<lparr>autoTryRunning := True, autoSnapshots := [], autoTryIndex := 0\<rparr>)"

definition toggleTryAll :: "state \<Rightarrow> state" where
  "toggleTryAll s =
     (if currentType s = []
      then s\<lparr>alerts := alerts s @
              [''Please select a sub-category (e.g. Gold Earrings) first!'']\<rparr>
      else if autoTryRunning s then stopAutoTry s
      else startAutoTry s)"

text \<open>The oldest pending timer expires and its callback runs.\<close>

definition timerFires :: "state \<Rightarrow> state" where
  "timerFires s =
     (case pendingTimers s of
        [] \<Rightarrow> s
      | t # ts \<Rightarrow> autoStepCallback (s\<lparr>pendingTimers := ts\<rparr>))"

fun fireTimers :: "nat \<Rightarrow> state \<Rightarrow> state" where
  "fireTimers 0 s = s"
| "fireTimers (Suc n) s = fireTimers n (timerFires s)"

subsection \<open>Swipe recognition\<close>

definition updateHandIndicator :: "bool \<Rightarrow> state \<Rightarrow> state" where
  "updateHandIndicator detected s = (if detected then s else s\<lparr>previousHandX := None\<rparr>)"

text \<open>
  The handler of the hand detector. Beside the new state it returns the argument with
  which it has called \<open>navigateJewelry\<close>, if it has: that call is the swipe event.
\<close>

definition onResults :: "frame \<Rightarrow> state \<Rightarrow> int option \<times> state" where
  "onResults results s0 =
     (let s1 = s0\<lparr>isProcessingHand := False\<rparr>;
          hasHand = (handX results \<noteq> None);
          s2 = updateHandIndicator hasHand s1
      in case handX results of
           None \<Rightarrow> (None, s2)
         | Some currentX \<Rightarrow>
             if autoTryRunning s2 then (None, s2)
             else if now results - lastGestureTime s2 < GESTURE_COOLDOWN then (None, s2)
             else
               (let (ev, s3) =
                      (case previousHandX s2 of
                         None \<Rightarrow> (None, s2)
                       | Some prev \<Rightarrow>
                           (let diff = dsub currentX prev
                            in if dlt diff (dneg SWIPE_THRESHOLD)
                               then (Some 1,
                                     (navigateJewelry 1 s2)
                                       \<lparr>lastGestureTime := now results, previousHandX := None\<rparr>)
                               else if dlt SWIPE_THRESHOLD diff
                               then (Some (- 1),
                                     (navigateJewelry (- 1) s2)
                                       \<lparr>lastGestureTime := now results, previousHandX := None\<rparr>)
                               else (None, s2)))
                in (ev, if now results - lastGestureTime s3 > 100
                        then s3\<lparr>previousHandX := Some currentX\<rparr> else s3)))"

text \<open>
  A stream of detector results, handled in order: the final state and the clock values
  at which a swipe was emitted.
\<close>

fun handStream :: "frame list \<Rightarrow> state \<Rightarrow> int list \<times> state" where
  "handStream [] s = ([], s)"
| "handStream (r # rs) s =
     (let (ev, s1) = onResults r s;
          (ts, s2) = handStream rs s1
      in ((if ev = None then [] else [now r]) @ ts, s2))"

subsection \<open>The page as a fold over events\<close>

datatype event =
    SelectJewelryType string
  | ClickThumb nat
  | ToggleTryAll
  | TimerFires
  | HandResults frame
  | TakeSnapshot

text \<open>An exception thrown in a click handler ends the handler; the state stays.\<close>

fun step :: "event \<Rightarrow> state \<Rightarrow> state" where
  "step (SelectJewelryType type) s = selectJewelryType type s"
| "step (ClickThumb k) s =
     (if k < length (jewelryOptions s)
      then (case thumbClick (jewelryOptions s ! k) s of Inl e \<Rightarrow> s | Inr s1 \<Rightarrow> s1)
      else s)"
| "step ToggleTryAll s = toggleTryAll s"
| "step TimerFires s = timerFires s"
| "step (HandResults r) s = snd (onResults r s)"
| "step TakeSnapshot s = takeSnapshot s"

fun exec :: "event list \<Rightarrow> state \<Rightarrow> state" where
  "exec [] s = s"
| "exec (e # es) s = exec es (step e s)"

subsection \<open>Notions used in the statements\<close>

text \<open>The absolute value of a number.\<close>

fun dabs :: "double \<Rightarrow> double" where
  "dabs NaN = NaN"
| "dabs (Infinity n) = Infinity False"
| "dabs (Finite a) = Finite \<bar>a\<bar>"

text \<open>
  The snapshot that is taken in a run started from \<open>s\<close> while catalog item \<open>a\<close> is
  in the slot of the current category.
\<close>

definition snapshotWith :: "state \<Rightarrow> image \<Rightarrow> snapshot" where
  "snapshotWith s a =
     (if str_includes (currentType s) ''earrings''
      then \<lparr>shotEarring = Img a, shotNecklace = necklaceImg s\<rparr>
      else \<lparr>shotEarring = earringImg s, shotNecklace = Img a\<rparr>)"

text \<open>
  The state of a run started from \<open>s\<close> over the catalog \<open>assets\<close> after \<open>k\<close>
  captures, while the timer of step \<open>k\<close> is pending.
\<close>

definition midRun :: "state \<Rightarrow> image list \<Rightarrow> nat \<Rightarrow> state" where
  "midRun s assets k =
     (let s1 = s\<lparr>autoTryRunning := True,
                  autoSnapshots := map (snapshotWith s) (take k assets),
                  autoTryIndex := k,
                  autoTryTimeout := Some (Suc (timerCount s + k)),
                  pendingTimers := [Suc (timerCount s + k)],
                  timerCount := Suc (timerCount s + k)\<rparr>
      in if str_includes (currentType s) ''earrings''
         then s1\<lparr>earringImg := Img (assets ! k)\<rparr>
         else s1\<lparr>necklaceImg := Img (assets ! k)\<rparr>)"

text \<open>Two invariants of the page: catalogs hold distinct objects, and a timer is
  pending exactly while a run is active.\<close>

definition catalogsFresh :: "state \<Rightarrow> bool" where
  "catalogsFresh s \<longleftrightarrow>
     (\<forall>t list. preloadedAssets s t = Some list \<longrightarrow>
        distinct (map imgId list) \<and> (\<forall>a \<in> set list. imgId a < nextObjId s))"

definition timersSettled :: "state \<Rightarrow> bool" where
  "timersSettled s \<longleftrightarrow>
     (if autoTryRunning s
      then pendingTimers s = [timerCount s] \<and> autoTryTimeout s = Some (timerCount s)
           \<and> 0 < timerCount s
      else pendingTimers s = [])"

subsection \<open>Sample sessions\<close>

definition goldEarrings :: "image list" where
  "goldEarrings =
     map (\<lambda>j. \<lparr>imgId = j - 1, imgSrc = assetSrc ''gold_earrings'' j,
                 crossOrigin = Some ''anonymous''\<rparr>) [1, 2, 3, 4, 5]"

definition diamondNecklaces :: "image list" where
  "diamondNecklaces =
     map (\<lambda>j. \<lparr>imgId = j - 1, imgSrc = assetSrc ''diamond_necklaces'' j,
                 crossOrigin = Some ''anonymous''\<rparr>) [1, 2, 3, 4, 5, 6]"

definition earringsSelected :: state where
  "earringsSelected = exec [SelectJewelryType ''gold_earrings''] init_state"

definition necklacesSelected :: state where
  "necklacesSelected = exec [SelectJewelryType ''diamond_necklaces''] init_state"

definition picked :: state where
  "picked = exec [SelectJewelryType ''gold_earrings'', ClickThumb 1] init_state"

definition pickedThenOther :: state where
  "pickedThenOther =
     exec [SelectJewelryType ''gold_earrings'', ClickThumb 1,
           SelectJewelryType ''diamond_earrings''] init_state"

definition pickedThenSame :: state where
  "pickedThenSame =
     exec [SelectJewelryType ''gold_earrings'', ClickThumb 1,
           SelectJewelryType ''gold_earrings''] init_state"

definition baselineTracked :: state where
  "baselineTracked =
     exec [SelectJewelryType ''gold_earrings'',
           HandResults \<lparr>handX = Some (Finite (1 / 2)), now = 1000000\<rparr>] init_state"

definition runningWithBaseline :: state where
  "runningWithBaseline =
     exec [SelectJewelryType ''gold_earrings'',
           HandResults \<lparr>handX = Some (Finite (1 / 2)), now = 1000000\<rparr>,
           ToggleTryAll] init_state"

definition swipeLeft :: frame where
  "swipeLeft = \<lparr>handX = Some (Finite (1 / 4)), now = 1002000\<rparr>"

definition baselineAtZero :: state where
  "baselineAtZero =
     exec [SelectJewelryType ''gold_earrings'',
           HandResults \<lparr>handX = Some (Finite 0), now = 1000000\<rparr>] init_state"

definition atThreshold :: frame where
  "atThreshold = \<lparr>handX = Some SWIPE_THRESHOLD, now = 1002000\<rparr>"

definition pastThreshold :: frame where
  "pastThreshold = \<lparr>handX = Some (round64 (54 / 100)), now = 1002000\<rparr>"

definition twoSwipes :: "frame list" where
  "twoSwipes =
     [\<lparr>handX = Some (Finite (1 / 2)), now = 1000000\<rparr>,
      \<lparr>handX = Some (Finite (1 / 4)), now = 1000050\<rparr>,
      \<lparr>handX = Some (Finite (1 / 4)), now = 1000900\<rparr>,
      \<lparr>handX = Some (Finite (1 / 2)), now = 1000950\<rparr>]"

section \<open>Properties\<close>

subsection \<open>Catalogs\<close>

lemma preloadLoop_eq:
  "preloadLoop type count i (nid, acc) =
     (nid + (Suc count - i),
      acc @ map (\<lambda>j. \<lparr>imgId = nid + (j - i), imgSrc = assetSrc type j,
                       crossOrigin = Some ''anonymous''\<rparr>) [i..<Suc count])"
proof (induction type count i "(nid, acc)" arbitrary: nid acc rule: preloadLoop.induct)
  case (1 type count i nid acc)
  show ?case
  proof (cases "i \<le> count")
    case True
    then have "[i..<Suc count] = i # [Suc i..<Suc count]"
      by (simp add: upt_conv_Cons)
    with True "1" [OF True] show ?thesis
      by (subst preloadLoop.simps) (auto simp: Suc_diff_le)
  next
    case False
    then show ?thesis by (subst preloadLoop.simps) simp
  qed
qed


lemma preloadCategory_cached:
  "preloadedAssets s t = Some list \<Longrightarrow> preloadCategory t s = s"
  by (simp add: preloadCategory_def)

lemma preloadCategory_other:
  "u \<noteq> t \<Longrightarrow> preloadedAssets (preloadCategory t s) u = preloadedAssets s u"
  by (simp add: preloadCategory_def Let_def split: option.splits prod.splits)

lemma preloadCategory_present: "preloadedAssets (preloadCategory t s) t \<noteq> None"
  by (simp add: preloadCategory_def Let_def split: option.splits prod.splits)

lemma preloadCategory_nextObjId: "nextObjId s \<le> nextObjId (preloadCategory t s)"
  by (simp add: preloadCategory_def Let_def preloadLoop_eq split: option.splits)

lemma preloadCategory_new:
  assumes "preloadedAssets s t = None"
    and "preloadedAssets (preloadCategory t s) t = Some list"
  shows "distinct (map imgId list)
         \<and> (\<forall>a \<in> set list. nextObjId s \<le> imgId a \<and> imgId a < nextObjId (preloadCategory t s))"
proof (cases "IMAGE_COUNTS t")
  case None
  with assms show ?thesis by (simp add: preloadCategory_def)
next
  case (Some count)
  let ?f = "\<lambda>j. \<lparr>imgId = nextObjId s + (j - 1), imgSrc = assetSrc t j,
                  crossOrigin = Some ''anonymous''\<rparr>"
  from assms Some have l: "list = map ?f [1..<Suc count]"
    and n: "nextObjId (preloadCategory t s) = nextObjId s + count"
    by (simp_all add: preloadCategory_def preloadLoop_eq)
  have "map imgId list = map (\<lambda>j. nextObjId s + (j - 1)) [1..<Suc count]"
    by (simp add: l)
  moreover have "inj_on (\<lambda>j. nextObjId s + (j - 1)) (set [1..<Suc count])"
    by (auto simp: inj_on_def)
  ultimately have "distinct (map imgId list)"
    by (simp add: distinct_map)
  moreover have "\<forall>a \<in> set list. nextObjId s \<le> imgId a \<and> imgId a < nextObjId s + count"
    by (auto simp: l)
  ultimately show ?thesis using n by simp
qed

lemma preloadCategory_fresh:
  assumes "catalogsFresh s"
  shows "catalogsFresh (preloadCategory t s)"
proof (cases "preloadedAssets s t")
  case (Some list)
  then show ?thesis using assms by (simp add: preloadCategory_cached)
next
  case None
  show ?thesis
    unfolding catalogsFresh_def
  proof (intro allI impI)
    fix u list
    assume pl: "preloadedAssets (preloadCategory t s) u = Some list"
    show "distinct (map imgId list)
          \<and> (\<forall>a \<in> set list. imgId a < nextObjId (preloadCategory t s))"
    proof (cases "u = t")
      case True
      with pl preloadCategory_new [OF None, of list] show ?thesis by simp
    next
      case False
      with pl have "preloadedAssets s u = Some list"
        by (simp add: preloadCategory_other)
      with assms have "distinct (map imgId list)" and "\<forall>a \<in> set list. imgId a < nextObjId s"
        by (auto simp: catalogsFresh_def)
      then show ?thesis using preloadCategory_nextObjId [of s t] by fastforce
    qed
  qed
qed

lemma selectJewelryType_cache:
  "preloadedAssets (selectJewelryType t s) = preloadedAssets (preloadCategory t s)
   \<and> nextObjId (selectJewelryType t s) = nextObjId (preloadCategory t s)"
  by (simp add: selectJewelryType_def preloadCategory_def Let_def preloadLoop_eq
      split: option.splits)

lemma stopAutoTry_cache [simp]:
  "preloadedAssets (stopAutoTry s) = preloadedAssets s"
  "nextObjId (stopAutoTry s) = nextObjId s"
  by (simp_all add: stopAutoTry_def clearTimeout_def showGallery_def Let_def
      split: option.splits)

lemma runAutoStep_cache [simp]:
  "preloadedAssets (runAutoStep s) = preloadedAssets s"
  "nextObjId (runAutoStep s) = nextObjId s"
  by (simp_all add: runAutoStep_def setTimeout_def Let_def split: option.splits)

lemma step_cache:
  "(\<forall>t. e \<noteq> SelectJewelryType t) \<Longrightarrow>
     preloadedAssets (step e s) = preloadedAssets s \<and> nextObjId (step e s) = nextObjId s"
  by (cases e)
     (auto simp: thumbClick_def toggleTryAll_def startAutoTry_def timerFires_def
       autoStepCallback_def captureToGallery_def onResults_def updateHandIndicator_def
       navigateJewelry_def takeSnapshot_def showGallery_def Let_def
       split: option.splits sum.splits list.splits if_splits)

lemma step_fresh: "catalogsFresh s \<Longrightarrow> catalogsFresh (step e s)"
proof (cases "\<exists>t. e = SelectJewelryType t")
  case True
  then obtain t where "e = SelectJewelryType t" by blast
  moreover assume "catalogsFresh s"
  ultimately show ?thesis
    using preloadCategory_fresh [of s t] selectJewelryType_cache [of t s]
    by (simp add: catalogsFresh_def)
next
  case False
  moreover assume "catalogsFresh s"
  ultimately show ?thesis using step_cache [of e s] by (simp add: catalogsFresh_def)
qed

lemma exec_fresh: "catalogsFresh s \<Longrightarrow> catalogsFresh (exec es s)"
  by (induction es arbitrary: s) (simp_all add: step_fresh)

lemma exec_catalogs_fresh:
  assumes "preloadedAssets (exec es init_state) t = Some list"
  shows "distinct list"
proof -
  have "catalogsFresh init_state" by (simp add: catalogsFresh_def init_state_def)
  then have "catalogsFresh (exec es init_state)" by (rule exec_fresh)
  with assms have "distinct (map imgId list)" by (auto simp: catalogsFresh_def)
  then show ?thesis by (simp add: distinct_map)
qed


lemma stopAutoTry_settled:
  "pendingTimers s = [] \<or> pendingTimers s = [timerCount s] \<and> autoTryTimeout s = Some (timerCount s) \<and> 0 < timerCount s
   \<Longrightarrow> timersSettled (stopAutoTry s)"
  by (auto simp: timersSettled_def stopAutoTry_def clearTimeout_def showGallery_def Let_def
      split: option.splits)

lemma runAutoStep_settled:
  "autoTryRunning s \<Longrightarrow> pendingTimers s = [] \<Longrightarrow> timersSettled (runAutoStep s)"
  by (auto simp: runAutoStep_def setTimeout_def Let_def stopAutoTry_settled
      split: option.splits) (simp_all add: timersSettled_def)

lemma step_settled:
  assumes "timersSettled s"
  shows "timersSettled (step e s)"
proof (cases e)
  case (SelectJewelryType t)
  then show ?thesis
    using assms
    by (simp add: timersSettled_def selectJewelryType_def preloadCategory_def Let_def
        preloadLoop_eq split: option.splits)
next
  case (ClickThumb k)
  then show ?thesis
    using assms
    by (auto simp: timersSettled_def thumbClick_def Let_def split: option.splits sum.splits)
next
  case ToggleTryAll
  show ?thesis
  proof (cases "currentType s = []")
    case True
    then show ?thesis using assms ToggleTryAll by (simp add: timersSettled_def toggleTryAll_def)
  next
    case False
    show ?thesis
    proof (cases "autoTryRunning s")
      case True
      then have "timersSettled (stopAutoTry s)"
        using assms by (intro stopAutoTry_settled) (simp add: timersSettled_def)
      then show ?thesis using ToggleTryAll False True by (simp add: toggleTryAll_def)
    next
      case nr: False
      then have "pendingTimers s = []" using assms by (simp add: timersSettled_def)
      then have "timersSettled (startAutoTry s)"
        unfolding startAutoTry_def by (intro runAutoStep_settled) simp_all
      then show ?thesis using ToggleTryAll False nr by (simp add: toggleTryAll_def)
    qed
  qed
next
  case TimerFires
  show ?thesis
  proof (cases "pendingTimers s")
    case Nil
    then show ?thesis using assms TimerFires by (simp add: timerFires_def)
  next
    case (Cons t ts)
    then have run: "autoTryRunning s" and ts: "ts = []"
      using assms by (auto simp: timersSettled_def split: if_splits)
    have "timersSettled (autoStepCallback (s\<lparr>pendingTimers := ts\<rparr>))"
      unfolding autoStepCallback_def Let_def
      by (intro runAutoStep_settled) (simp_all add: captureToGallery_def run ts)
    then show ?thesis using TimerFires Cons by (simp add: timerFires_def)
  qed
next
  case (HandResults r)
  then show ?thesis
    using assms
    by (auto simp: timersSettled_def onResults_def updateHandIndicator_def navigateJewelry_def
        Let_def split: option.splits if_splits)
next
  case TakeSnapshot
  then show ?thesis
    using assms
    by (simp add: timersSettled_def takeSnapshot_def showGallery_def captureToGallery_def)
qed

lemma exec_settled: "timersSettled s \<Longrightarrow> timersSettled (exec es s)"
  by (induction es arbitrary: s) (simp_all add: step_settled)

lemma exec_idle_no_timers:
  "\<not> autoTryRunning (exec es init_state) \<Longrightarrow> pendingTimers (exec es init_state) = []"
proof -
  have "timersSettled init_state" by (simp add: timersSettled_def init_state_def)
  then have "timersSettled (exec es init_state)" by (rule exec_settled)
  then show "\<not> autoTryRunning (exec es init_state) \<Longrightarrow> pendingTimers (exec es init_state) = []"
    by (simp add: timersSettled_def)
qed

lemma selectJewelryType_selection:
  "currentType (selectJewelryType t s) = t
   \<and> earringImg (selectJewelryType t s) = earringImg s
   \<and> necklaceImg (selectJewelryType t s) = necklaceImg s"
  by (simp add: selectJewelryType_def preloadCategory_def Let_def preloadLoop_eq
      split: option.splits)

subsection \<open>Facts about the sample sessions\<close>

lemma earringsSelected_facts:
  "currentType earringsSelected = ''gold_earrings''"
  "preloadedAssets earringsSelected ''gold_earrings'' = Some goldEarrings"
  "earringImg earringsSelected = Null"
  "\<not> autoTryRunning earringsSelected"
  "pendingTimers earringsSelected = []"
  by code_simp+

lemma necklacesSelected_facts:
  "currentType necklacesSelected = ''diamond_necklaces''"
  "preloadedAssets necklacesSelected ''diamond_necklaces'' = Some diamondNecklaces"
  "\<not> autoTryRunning necklacesSelected"
  "pendingTimers necklacesSelected = []"
  by code_simp+

lemma picked_facts:
  "currentType picked = ''gold_earrings''"
  "preloadedAssets picked ''gold_earrings'' = Some goldEarrings"
  "earringImg picked = Img (goldEarrings ! Suc 0)"
  by code_simp+

lemma goldEarrings_facts:
  "distinct goldEarrings" "length goldEarrings = 5"
  by (simp_all add: goldEarrings_def)

lemma diamondNecklaces_facts:
  "length diamondNecklaces = 6"
  by (simp add: diamondNecklaces_def)

subsection \<open>Navigation\<close>

lemma indexOf_absent: "v \<notin> Img ` set xs \<Longrightarrow> indexOf xs v = - 1"
  by (induction xs) (auto simp: Let_def)

lemma indexOf_nth: "distinct xs \<Longrightarrow> i < length xs \<Longrightarrow> indexOf xs (Img (xs ! i)) = int i"
proof (induction xs arbitrary: i)
  case Nil
  then show ?case by simp
next
  case (Cons x xs)
  show ?case
  proof (cases i)
    case 0
    then show ?thesis by simp
  next
    case (Suc j)
    with Cons.prems have j: "j < length xs" and d: "distinct xs" and nx: "x \<notin> set xs"
      by auto
    from j nx have "xs ! j \<noteq> x" by (metis nth_mem)
    with Cons.IH [OF d j] Suc show ?thesis by (simp add: Let_def)
  qed
qed

lemma js_rem_nonneg: "0 \<le> a \<Longrightarrow> 0 < b \<Longrightarrow> js_rem a b = Some (a mod b)"
  by (cases "a = 0") (simp_all add: js_rem_def)

lemma js_get_in_range: "0 \<le> k \<Longrightarrow> k < int (length xs) \<Longrightarrow> js_get xs (Some k) = Img (xs ! nat k)"
  by (simp add: js_get_def)

lemma navigateJewelry_currentType [simp]: "currentType (navigateJewelry dir s) = currentType s"
  by (simp add: navigateJewelry_def Let_def split: option.splits)

lemma navigateJewelry_preloadedAssets [simp]:
  "preloadedAssets (navigateJewelry dir s) = preloadedAssets s"
  by (simp add: navigateJewelry_def Let_def split: option.splits)

lemma navigateJewelry_currentImg:
  assumes "currentType s \<noteq> []" and "preloadedAssets s (currentType s) = Some list"
  shows "currentImg (navigateJewelry dir s) =
           js_get list (js_rem (indexOf list (currentImg s) + dir + int (length list))
                          (int (length list)))"
  using assms by (simp add: navigateJewelry_def currentImg_def Let_def)

lemma navigateJewelry_at:
  assumes ct: "currentType s \<noteq> []"
    and pa: "preloadedAssets s (currentType s) = Some list"
    and d: "distinct list"
    and i: "i < length list"
    and cur: "currentImg s = Img (list ! i)"
    and dir: "dir = 1 \<or> dir = - 1"
  shows "currentImg (navigateJewelry dir s) =
           Img (list ! nat ((int i + dir) mod int (length list)))"
proof -
  let ?n = "int (length list)"
  have idx: "indexOf list (currentImg s) = int i"
    using d i cur by (simp add: indexOf_nth)
  have n: "0 < ?n" using i by (cases list) auto
  have nonneg: "0 \<le> int i + dir + ?n" using dir i by auto
  have rem: "js_rem (int i + dir + ?n) ?n = Some ((int i + dir) mod ?n)"
    using js_rem_nonneg [OF nonneg n] by simp
  have "0 \<le> (int i + dir) mod ?n" and "(int i + dir) mod ?n < ?n"
    using n by simp_all
  then show ?thesis
    using navigateJewelry_currentImg [OF ct pa, of dir] idx rem
    by (simp add: js_get_in_range)
qed

text \<open>
  Claim C7. In a catalog of length at least one, with the item at index \<open>i\<close>
  selected, \<open>navigateJewelry 1\<close> followed by \<open>navigateJewelry (-1)\<close> selects the
  item at index \<open>i\<close> again. The script keeps no index: it searches the catalog for the
  selected image, so the statement is about the image and about what \<open>indexOf\<close>
  finds. The items of every catalog the page builds are distinct objects
  (\<open>exec_catalogs_fresh\<close>).
\<close>

theorem advance_then_back:
  assumes ct: "currentType s \<noteq> []"
    and pa: "preloadedAssets s (currentType s) = Some list"
    and d: "distinct list"
    and i: "i < length list"
    and cur: "currentImg s = Img (list ! i)"
  shows "currentImg (navigateJewelry (- 1) (navigateJewelry 1 s)) = Img (list ! i)
         \<and> indexOf list (currentImg (navigateJewelry (- 1) (navigateJewelry 1 s))) = int i"
proof -
  let ?n = "int (length list)"
  let ?j = "nat ((int i + 1) mod ?n)"
  have n: "0 < ?n" using i by (cases list) auto
  have j: "?j < length list" using n by (simp add: nat_less_iff)
  have fwd: "currentImg (navigateJewelry 1 s) = Img (list ! ?j)"
    using navigateJewelry_at [OF ct pa d i cur, of 1] by simp
  have bwd: "currentImg (navigateJewelry (- 1) (navigateJewelry 1 s)) =
                Img (list ! nat ((int ?j + (- 1)) mod ?n))"
    using navigateJewelry_at [of "navigateJewelry 1 s" list ?j "- 1"] ct pa d j fwd
    by simp
  have "(int ?j + (- 1)) mod ?n = ((int i + 1) mod ?n - 1) mod ?n"
    using n by simp
  also have "\<dots> = (int i + 1 - 1) mod ?n"
    by (simp add: mod_diff_left_eq)
  also have "\<dots> = int i" using i by simp
  finally have "nat ((int ?j + (- 1)) mod ?n) = i" by simp
  with bwd have "currentImg (navigateJewelry (- 1) (navigateJewelry 1 s)) = Img (list ! i)"
    by simp
  then show ?thesis using d i by (simp add: indexOf_nth)
qed

text \<open>
  An instance: gold earrings selected and the second thumbnail clicked, so that item 1
  of the catalog is in the earring slot.
\<close>

theorem advance_then_back_witness:
  "currentType picked \<noteq> []
   \<and> preloadedAssets picked (currentType picked) = Some goldEarrings
   \<and> distinct goldEarrings \<and> Suc 0 < length goldEarrings
   \<and> currentImg picked = Img (goldEarrings ! Suc 0)
   \<and> currentImg (navigateJewelry (- 1) (navigateJewelry 1 picked)) =
       Img (goldEarrings ! Suc 0)
   \<and> indexOf goldEarrings (currentImg (navigateJewelry (- 1) (navigateJewelry 1 picked))) = 1"
proof -
  have ct: "currentType picked \<noteq> []" by (simp add: picked_facts)
  have pa: "preloadedAssets picked (currentType picked) = Some goldEarrings"
    by (simp add: picked_facts)
  have d: "distinct goldEarrings" by (rule goldEarrings_facts)
  have i: "Suc 0 < length goldEarrings" by (simp add: goldEarrings_facts)
  have cur: "currentImg picked = Img (goldEarrings ! Suc 0)"
    by (simp add: currentImg_def picked_facts)
  note r = advance_then_back [OF ct pa d i cur]
  from r have c1: "currentImg (navigateJewelry (- 1) (navigateJewelry 1 picked)) =
      Img (goldEarrings ! Suc 0)"
    by (rule conjunct1)
  from r have "indexOf goldEarrings
      (currentImg (navigateJewelry (- 1) (navigateJewelry 1 picked))) = int (Suc 0)"
    by (rule conjunct2)
  then have c2: "indexOf goldEarrings
      (currentImg (navigateJewelry (- 1) (navigateJewelry 1 picked))) = 1"
    by simp
  show ?thesis
    using ct pa d i cur c1 c2 by blast
qed


lemma navigateJewelry_iter:
  assumes ct: "currentType s \<noteq> []"
    and pa: "preloadedAssets s (currentType s) = Some list"
    and d: "distinct list"
    and i: "i < length list"
    and cur: "currentImg s = Img (list ! i)"
    and dir: "dir = 1 \<or> dir = - 1"
  shows "currentImg ((navigateJewelry dir ^^ k) s) =
           Img (list ! nat ((int i + dir * int k) mod int (length list)))
         \<and> currentType ((navigateJewelry dir ^^ k) s) = currentType s
         \<and> preloadedAssets ((navigateJewelry dir ^^ k) s) = preloadedAssets s"
proof (induction k)
  case 0
  then show ?case using cur i by simp
next
  case (Suc k)
  let ?n = "int (length list)"
  let ?t = "(navigateJewelry dir ^^ k) s"
  let ?j = "nat ((int i + dir * int k) mod ?n)"
  have n: "0 < ?n" using i by (cases list) auto
  have j: "?j < length list" using n by (simp add: nat_less_iff)
  from Suc.IH have ct': "currentType ?t \<noteq> []"
    and pa': "preloadedAssets ?t (currentType ?t) = Some list"
    and cur': "currentImg ?t = Img (list ! ?j)"
    using ct pa by simp_all
  have "currentImg (navigateJewelry dir ?t) = Img (list ! nat ((int ?j + dir) mod ?n))"
    by (rule navigateJewelry_at [OF ct' pa' d j cur' dir])
  moreover have "(int ?j + dir) mod ?n = (int i + dir * int (Suc k)) mod ?n"
  proof -
    have "(int ?j + dir) mod ?n = ((int i + dir * int k) mod ?n + dir) mod ?n"
      using n by simp
    also have "\<dots> = (int i + dir * int k + dir) mod ?n"
      by (simp add: mod_add_left_eq)
    also have "int i + dir * int k + dir = int i + dir * int (Suc k)"
      by (simp add: algebra_simps)
    finally show ?thesis .
  qed
  ultimately show ?case using Suc.IH by simp
qed

text \<open>
  Claim C8. Advancing as many times as the catalog is long, always by 1 or always by
  -1, selects the starting item again, and after any number \<open>k\<close> of these steps the
  index of the selected item is \<open>(i + dir * k) mod length\<close>, which lies in the
  catalog.
\<close>

theorem advance_wraps:
  assumes ct: "currentType s \<noteq> []"
    and pa: "preloadedAssets s (currentType s) = Some list"
    and d: "distinct list"
    and i: "i < length list"
    and cur: "currentImg s = Img (list ! i)"
    and dir: "dir = 1 \<or> dir = - 1"
  shows "currentImg ((navigateJewelry dir ^^ length list) s) = Img (list ! i)
         \<and> (\<forall>k \<le> length list.
               indexOf list (currentImg ((navigateJewelry dir ^^ k) s)) =
                 (int i + dir * int k) mod int (length list)
               \<and> 0 \<le> indexOf list (currentImg ((navigateJewelry dir ^^ k) s))
               \<and> indexOf list (currentImg ((navigateJewelry dir ^^ k) s)) < int (length list))"
proof -
  let ?n = "int (length list)"
  have n: "0 < ?n" using i by (cases list) auto
  have iter: "currentImg ((navigateJewelry dir ^^ k) s) =
                Img (list ! nat ((int i + dir * int k) mod ?n))" for k
    using navigateJewelry_iter [OF ct pa d i cur dir, of k] by simp
  have "(int i + dir * ?n) mod ?n = int i" using i by simp
  then have full: "currentImg ((navigateJewelry dir ^^ length list) s) = Img (list ! i)"
    using iter [of "length list"] by simp
  have each: "indexOf list (currentImg ((navigateJewelry dir ^^ k) s)) =
                (int i + dir * int k) mod ?n" for k
  proof -
    have "nat ((int i + dir * int k) mod ?n) < length list"
      using n by (simp add: nat_less_iff)
    then show ?thesis using iter [of k] d n by (simp add: indexOf_nth)
  qed
  show ?thesis using full each n by simp
qed

text \<open>An instance: five steps backwards through the five gold earrings.\<close>

theorem advance_wraps_witness:
  "currentType picked \<noteq> []
   \<and> preloadedAssets picked (currentType picked) = Some goldEarrings
   \<and> distinct goldEarrings \<and> Suc 0 < length goldEarrings
   \<and> currentImg picked = Img (goldEarrings ! Suc 0)
   \<and> currentImg ((navigateJewelry (- 1) ^^ length goldEarrings) picked) =
       Img (goldEarrings ! Suc 0)
   \<and> indexOf goldEarrings (currentImg ((navigateJewelry (- 1) ^^ 3) picked)) = 3"
proof -
  have ct: "currentType picked \<noteq> []" by (simp add: picked_facts)
  have pa: "preloadedAssets picked (currentType picked) = Some goldEarrings"
    by (simp add: picked_facts)
  have d: "distinct goldEarrings" by (rule goldEarrings_facts)
  have i: "Suc 0 < length goldEarrings" by (simp add: goldEarrings_facts)
  have cur: "currentImg picked = Img (goldEarrings ! Suc 0)"
    by (simp add: currentImg_def picked_facts)
  have dir: "(- 1 :: int) = 1 \<or> (- 1 :: int) = - 1" by simp
  note r = advance_wraps [OF ct pa d i cur dir]
  from r have c1: "currentImg ((navigateJewelry (- 1) ^^ length goldEarrings) picked) =
      Img (goldEarrings ! Suc 0)"
    by (rule conjunct1)
  from r have "\<forall>k \<le> length goldEarrings.
      indexOf goldEarrings (currentImg ((navigateJewelry (- 1) ^^ k) picked)) =
        (int (Suc 0) + - 1 * int k) mod int (length goldEarrings)"
    by blast
  then have "indexOf goldEarrings (currentImg ((navigateJewelry (- 1) ^^ 3) picked)) =
      (int (Suc 0) + - 1 * int 3) mod int (length goldEarrings)"
    by (simp add: goldEarrings_facts)
  then have c2: "indexOf goldEarrings (currentImg ((navigateJewelry (- 1) ^^ 3) picked)) = 3"
    by (simp add: goldEarrings_facts)
  show ?thesis
    using ct pa d i cur c1 c2 by blast
qed

text \<open>
  Claim C9. When the slot of the current category holds nothing, or an image that is not
  in the catalog, \<open>indexOf\<close> gives -1: advancing by 1 selects item 0, and advancing by
  -1 selects item \<open>N - 2\<close> when the catalog has at least two items and item 0 when it
  has one.
\<close>

theorem advance_from_none:
  assumes ct: "currentType s \<noteq> []"
    and pa: "preloadedAssets s (currentType s) = Some list"
    and ne: "1 \<le> length list"
    and cur: "currentImg s \<notin> Img ` set list"
  shows "currentImg (navigateJewelry 1 s) = Img (list ! 0)
         \<and> currentImg (navigateJewelry (- 1) s) =
             Img (list ! (if 2 \<le> length list then length list - 2 else 0))"
proof -
  let ?n = "int (length list)"
  have idx: "indexOf list (currentImg s) = - 1"
    using cur by (rule indexOf_absent)
  have n: "0 < ?n" using ne by (cases list) auto
  have "js_rem (- 1 + 1 + ?n) ?n = Some 0"
    using n by (simp add: js_rem_def)
  then have fwd: "currentImg (navigateJewelry 1 s) = Img (list ! 0)"
    using navigateJewelry_currentImg [OF ct pa, of 1] idx n by (simp add: js_get_def)
  have bwd: "currentImg (navigateJewelry (- 1) s) =
               Img (list ! (if 2 \<le> length list then length list - 2 else 0))"
  proof (cases "2 \<le> length list")
    case True
    then have "0 \<le> ?n - 2" by simp
    then have "js_rem (?n - 2) ?n = Some ((?n - 2) mod ?n)"
      using n by (rule js_rem_nonneg)
    moreover have "(?n - 2) mod ?n = ?n - 2"
      using True by (intro mod_pos_pos_trivial) simp_all
    moreover have "nat (?n - 2) = length list - 2" by simp
    ultimately show ?thesis
      using navigateJewelry_currentImg [OF ct pa, of "- 1"] idx True
      by (simp add: js_get_def)
  next
    case False
    with ne have one: "length list = 1" by simp
    then have "js_rem (- 1 + - 1 + ?n) ?n = Some 0" by (simp add: js_rem_def)
    then show ?thesis
      using navigateJewelry_currentImg [OF ct pa, of "- 1"] idx one
      by (simp add: js_get_def)
  qed
  show ?thesis using fwd bwd by simp
qed

text \<open>An instance: gold earrings selected and nothing picked yet.\<close>

theorem advance_from_none_witness:
  "currentType earringsSelected \<noteq> []
   \<and> preloadedAssets earringsSelected (currentType earringsSelected) = Some goldEarrings
   \<and> 1 \<le> length goldEarrings
   \<and> currentImg earringsSelected \<notin> Img ` set goldEarrings
   \<and> currentImg (navigateJewelry 1 earringsSelected) = Img (goldEarrings ! 0)
   \<and> currentImg (navigateJewelry (- 1) earringsSelected) = Img (goldEarrings ! 3)"
proof -
  have ct: "currentType earringsSelected \<noteq> []" by (simp add: earringsSelected_facts)
  have pa: "preloadedAssets earringsSelected (currentType earringsSelected) =
      Some goldEarrings"
    by (simp add: earringsSelected_facts)
  have ne: "1 \<le> length goldEarrings" by (simp add: goldEarrings_facts)
  have "currentImg earringsSelected = Null"
    by (simp add: currentImg_def earringsSelected_facts)
  then have cur: "currentImg earringsSelected \<notin> Img ` set goldEarrings" by auto
  note r = advance_from_none [OF ct pa ne cur]
  from r have c1: "currentImg (navigateJewelry 1 earringsSelected) = Img (goldEarrings ! 0)"
    by (rule conjunct1)
  from r have c2: "currentImg (navigateJewelry (- 1) earringsSelected) =
      Img (goldEarrings ! 3)"
    by (simp add: goldEarrings_facts)
  show ?thesis
    using ct pa ne cur c1 c2 by blast
qed

subsection \<open>Selecting a category\<close>

text \<open>
  Claim C4, as the script has it. \<open>selectJewelryType\<close> makes the category current
  and assigns neither image variable: the slot of the category holds after the call what
  it held before. It is empty after a first selection on a fresh page; after a pick it
  keeps the picked image, also when that image belongs to another catalog. The catalog
  of the category is in the cache after the call, and a call for a category that is
  already cached changes neither the cache nor the allocation counter, so the catalog is
  built once.
\<close>

theorem select_keeps_selection:
  "currentType (selectJewelryType t s) = t
   \<and> earringImg (selectJewelryType t s) = earringImg s
   \<and> necklaceImg (selectJewelryType t s) = necklaceImg s
   \<and> currentImg (selectJewelryType t init_state) = Null
   \<and> preloadedAssets (selectJewelryType t s) t \<noteq> None
   \<and> (preloadedAssets s t \<noteq> None \<longrightarrow>
        preloadedAssets (selectJewelryType t s) = preloadedAssets s
        \<and> nextObjId (selectJewelryType t s) = nextObjId s)
   \<and> preloadedAssets (selectJewelryType t (selectJewelryType t s)) =
       preloadedAssets (selectJewelryType t s)
   \<and> nextObjId (selectJewelryType t (selectJewelryType t s)) =
       nextObjId (selectJewelryType t s)"
proof -
  note sel = selectJewelryType_selection [of t s]
  have first: "currentImg (selectJewelryType t init_state) = Null"
    using selectJewelryType_selection [of t init_state]
    by (simp add: currentImg_def init_state_def)
  have present: "preloadedAssets (selectJewelryType t s) t \<noteq> None"
    using selectJewelryType_cache [of t s] preloadCategory_present [of t s] by simp
  have cached: "preloadedAssets (selectJewelryType t u) = preloadedAssets u
        \<and> nextObjId (selectJewelryType t u) = nextObjId u"
    if "preloadedAssets u t \<noteq> None" for u
  proof -
    from that obtain list where "preloadedAssets u t = Some list" by blast
    then have "preloadCategory t u = u" by (rule preloadCategory_cached)
    then show ?thesis using selectJewelryType_cache [of t u] by simp
  qed
  show ?thesis
    using sel first present cached [of s] cached [OF present] by blast
qed

text \<open>An instance: selecting gold earrings again after a pick.\<close>

theorem select_keeps_selection_witness:
  "preloadedAssets picked ''gold_earrings'' \<noteq> None
   \<and> earringImg (selectJewelryType ''gold_earrings'' picked) = Img (goldEarrings ! Suc 0)
   \<and> preloadedAssets (selectJewelryType ''gold_earrings'' picked) = preloadedAssets picked
   \<and> nextObjId (selectJewelryType ''gold_earrings'' picked) = nextObjId picked"
proof -
  have cached: "preloadedAssets picked ''gold_earrings'' \<noteq> None"
    by (simp add: picked_facts)
  note r = select_keeps_selection [of "''gold_earrings''" picked]
  from r have "earringImg (selectJewelryType ''gold_earrings'' picked) = earringImg picked"
    by blast
  then have c1: "earringImg (selectJewelryType ''gold_earrings'' picked) =
      Img (goldEarrings ! Suc 0)"
    by (simp add: picked_facts)
  from r cached have c2:
    "preloadedAssets (selectJewelryType ''gold_earrings'' picked) = preloadedAssets picked
     \<and> nextObjId (selectJewelryType ''gold_earrings'' picked) = nextObjId picked"
    by blast
  show ?thesis using cached c1 c2 by blast
qed

text \<open>
  Claim C4 as the specification words it, refuted: the slot is not reset. After a pick
  of the second gold earring, selecting diamond earrings leaves that gold earring in the
  earring slot, and selecting gold earrings again leaves it selected at index 1 of the
  catalog of the category just selected.
\<close>

theorem select_resets_counterexample:
  "currentType pickedThenOther = ''diamond_earrings''
   \<and> earringImg pickedThenOther = Img (goldEarrings ! Suc 0)
   \<and> earringImg pickedThenOther \<noteq> Null
   \<and> currentType pickedThenSame = ''gold_earrings''
   \<and> preloadedAssets pickedThenSame ''gold_earrings'' = Some goldEarrings
   \<and> currentImg pickedThenSame = Img (goldEarrings ! Suc 0)
   \<and> indexOf goldEarrings (currentImg pickedThenSame) = 1"
  by code_simp

subsection \<open>Which slot an operation writes\<close>

text \<open>
  Claim C10. When the name of the current category contains \<open>earrings\<close>,
  \<open>navigateJewelry\<close> changes at most the earring image and nothing else of the
  state, and \<open>runAutoStep\<close> and the timer callback leave the necklace image as it
  was; for every other category the same holds with the two slots exchanged. A
  thumbnail click that does not throw changes at most the slot named by the category
  the thumbnail was built for.
\<close>

theorem category_decides_slot:
  "(str_includes (currentType s) ''earrings'' \<longrightarrow>
      navigateJewelry dir s = s\<lparr>earringImg := earringImg (navigateJewelry dir s)\<rparr>
      \<and> necklaceImg (navigateJewelry dir s) = necklaceImg s
      \<and> necklaceImg (runAutoStep s) = necklaceImg s
      \<and> necklaceImg (timerFires s) = necklaceImg s)
   \<and> (\<not> str_includes (currentType s) ''earrings'' \<longrightarrow>
      navigateJewelry dir s = s\<lparr>necklaceImg := necklaceImg (navigateJewelry dir s)\<rparr>
      \<and> earringImg (navigateJewelry dir s) = earringImg s
      \<and> earringImg (runAutoStep s) = earringImg s
      \<and> earringImg (timerFires s) = earringImg s)
   \<and> (thumbClick b s = Inr s' \<longrightarrow>
      (if str_includes (thumbType b) ''earrings''
       then s' = s\<lparr>earringImg := earringImg s'\<rparr> \<and> necklaceImg s' = necklaceImg s
       else s' = s\<lparr>necklaceImg := necklaceImg s'\<rparr> \<and> earringImg s' = earringImg s))"
proof -
  have nav: "navigateJewelry dir s =
      (if str_includes (currentType s) ''earrings''
       then s\<lparr>earringImg := earringImg (navigateJewelry dir s)\<rparr>
       else s\<lparr>necklaceImg := necklaceImg (navigateJewelry dir s)\<rparr>)"
    by (simp add: navigateJewelry_def Let_def split: option.splits)
  have nav_other: "(if str_includes (currentType s) ''earrings''
       then necklaceImg (navigateJewelry dir s) = necklaceImg s
       else earringImg (navigateJewelry dir s) = earringImg s)"
    by (simp add: navigateJewelry_def Let_def split: option.splits)
  have auto_other: "(if str_includes (currentType u) ''earrings''
       then necklaceImg (runAutoStep u) = necklaceImg u
       else earringImg (runAutoStep u) = earringImg u)" for u
    by (simp add: runAutoStep_def setTimeout_def stopAutoTry_def clearTimeout_def
        showGallery_def Let_def split: option.splits)
  have fire_other: "(if str_includes (currentType s) ''earrings''
       then necklaceImg (timerFires s) = necklaceImg s
       else earringImg (timerFires s) = earringImg s)"
  proof (cases "pendingTimers s")
    case Nil
    then show ?thesis by (simp add: timerFires_def)
  next
    case (Cons t ts)
    let ?u = "(captureToGallery (s\<lparr>pendingTimers := ts\<rparr>))
                \<lparr>autoTryIndex := Suc (autoTryIndex (captureToGallery (s\<lparr>pendingTimers := ts\<rparr>)))\<rparr>"
    have "timerFires s = runAutoStep ?u"
      using Cons by (simp add: timerFires_def autoStepCallback_def Let_def)
    moreover have "currentType ?u = currentType s" "necklaceImg ?u = necklaceImg s"
      "earringImg ?u = earringImg s"
      by (simp_all add: captureToGallery_def)
    ultimately show ?thesis using auto_other [of ?u] by simp
  qed
  have click: "thumbClick b s = Inr s' \<longrightarrow>
      (if str_includes (thumbType b) ''earrings''
       then s' = s\<lparr>earringImg := earringImg s'\<rparr> \<and> necklaceImg s' = necklaceImg s
       else s' = s\<lparr>necklaceImg := necklaceImg s'\<rparr> \<and> earringImg s' = earringImg s)"
    by (auto simp: thumbClick_def Let_def split: option.splits if_splits)
  show ?thesis
    using nav nav_other auto_other [of s] fire_other click
    by (cases "str_includes (currentType s) ''earrings''") simp_all
qed

text \<open>An instance in each kind of category.\<close>

theorem category_decides_slot_witness:
  "str_includes (currentType picked) ''earrings''
   \<and> necklaceImg (navigateJewelry 1 picked) = necklaceImg picked
   \<and> necklaceImg (timerFires picked) = necklaceImg picked
   \<and> \<not> str_includes (currentType necklacesSelected) ''earrings''
   \<and> earringImg (navigateJewelry (- 1) necklacesSelected) = earringImg necklacesSelected
   \<and> thumbClick \<lparr>thumbSrc = ''gold_earrings/3.png'', thumbType = ''gold_earrings'',
                   thumbIdx = 3\<rparr> picked =
       Inr (picked\<lparr>earringImg := Img (goldEarrings ! 2)\<rparr>)
   \<and> necklaceImg (picked\<lparr>earringImg := Img (goldEarrings ! 2)\<rparr>) = necklaceImg picked"
proof -
  let ?b = "\<lparr>thumbSrc = ''gold_earrings/3.png'', thumbType = ''gold_earrings'',
             thumbIdx = 3\<rparr>"
  let ?s' = "picked\<lparr>earringImg := Img (goldEarrings ! 2)\<rparr>"
  have e: "str_includes (currentType picked) ''earrings''"
    by (simp add: picked_facts)
  have n: "\<not> str_includes (currentType necklacesSelected) ''earrings''"
    by (simp add: necklacesSelected_facts)
  have click: "thumbClick ?b picked = Inr ?s'"
    by (simp add: thumbClick_def picked_facts js_get_def goldEarrings_facts)
  from category_decides_slot [of picked 1 ?b ?s'] e
  have c1: "necklaceImg (navigateJewelry 1 picked) = necklaceImg picked
      \<and> necklaceImg (timerFires picked) = necklaceImg picked"
    by blast
  from category_decides_slot [of necklacesSelected "- 1" ?b ?s'] n
  have c2: "earringImg (navigateJewelry (- 1) necklacesSelected) =
      earringImg necklacesSelected"
    by blast
  from category_decides_slot [of picked 1 ?b ?s'] click
  have c3: "necklaceImg ?s' = necklaceImg picked"
    by simp
  show ?thesis using e n click c1 c2 c3 by blast
qed

subsection \<open>Auto capture\<close>

text \<open>
  Claim C6. With no category selected \<open>toggleTryAll\<close> shows its message and changes
  nothing else: the running flag, the collection and the step index are as before. With
  a category selected and no run active, it leaves the collection empty and the step
  index 0; the run is then active exactly when the catalog of the category is cached and
  not empty.
\<close>

theorem toggle_needs_category:
  "(currentType s = [] \<longrightarrow>
      toggleTryAll s =
        s\<lparr>alerts := alerts s @
             [''Please select a sub-category (e.g. Gold Earrings) first!'']\<rparr>
      \<and> autoTryRunning (toggleTryAll s) = autoTryRunning s
      \<and> autoSnapshots (toggleTryAll s) = autoSnapshots s
      \<and> autoTryIndex (toggleTryAll s) = autoTryIndex s)
   \<and> (currentType s \<noteq> [] \<and> \<not> autoTryRunning s \<longrightarrow>
      autoSnapshots (toggleTryAll s) = []
      \<and> autoTryIndex (toggleTryAll s) = 0
      \<and> (autoTryRunning (toggleTryAll s) \<longleftrightarrow>
           (case preloadedAssets s (currentType s) of
              None \<Rightarrow> False
            | Some assets \<Rightarrow> assets \<noteq> [])))"
  by (auto simp: toggleTryAll_def startAutoTry_def runAutoStep_def stopAutoTry_def
      clearTimeout_def setTimeout_def Let_def split: option.splits)

text \<open>An instance of each case: a fresh page, and gold earrings selected.\<close>

theorem toggle_needs_category_witness:
  "currentType init_state = []
   \<and> alerts (toggleTryAll init_state) =
       [''Please select a sub-category (e.g. Gold Earrings) first!'']
   \<and> \<not> autoTryRunning (toggleTryAll init_state)
   \<and> currentType earringsSelected \<noteq> [] \<and> \<not> autoTryRunning earringsSelected
   \<and> autoSnapshots (toggleTryAll earringsSelected) = []
   \<and> autoTryIndex (toggleTryAll earringsSelected) = 0
   \<and> autoTryRunning (toggleTryAll earringsSelected)"
proof -
  have none: "currentType init_state = []" by (simp add: init_state_def)
  from toggle_needs_category [of init_state] none
  have t: "toggleTryAll init_state =
      init_state\<lparr>alerts := alerts init_state @
        [''Please select a sub-category (e.g. Gold Earrings) first!'']\<rparr>"
    and r0: "autoTryRunning (toggleTryAll init_state) = autoTryRunning init_state"
    by blast+
  from t have c1: "alerts (toggleTryAll init_state) =
      [''Please select a sub-category (e.g. Gold Earrings) first!'']"
    by (simp add: init_state_def)
  from r0 have c2: "\<not> autoTryRunning (toggleTryAll init_state)"
    by (simp add: init_state_def)
  have ct: "currentType earringsSelected \<noteq> []" by (simp add: earringsSelected_facts)
  have nr: "\<not> autoTryRunning earringsSelected" by (rule earringsSelected_facts)
  have pa: "preloadedAssets earringsSelected (currentType earringsSelected) =
      Some goldEarrings"
    by (simp add: earringsSelected_facts)
  have ne: "goldEarrings \<noteq> []" by (simp add: goldEarrings_def)
  from toggle_needs_category [of earringsSelected] ct nr
  have c3: "autoSnapshots (toggleTryAll earringsSelected) = []"
    and c4: "autoTryIndex (toggleTryAll earringsSelected) = 0"
    and c5: "autoTryRunning (toggleTryAll earringsSelected) \<longleftrightarrow>
      (case preloadedAssets earringsSelected (currentType earringsSelected) of
         None \<Rightarrow> False
       | Some assets \<Rightarrow> assets \<noteq> [])"
    by blast+
  from c5 pa ne have c6: "autoTryRunning (toggleTryAll earringsSelected)" by simp
  show ?thesis using none c1 c2 ct nr c3 c4 c6 by blast
qed

lemma fireTimers_Suc: "fireTimers (Suc n) s = timerFires (fireTimers n s)"
  by (induction n arbitrary: s) simp_all

lemma toggleTryAll_starts:
  assumes "currentType s \<noteq> []" and "preloadedAssets s (currentType s) = Some assets"
    and "\<not> autoTryRunning s" and "pendingTimers s = []" and "0 < length assets"
  shows "toggleTryAll s = midRun s assets 0"
  using assms
  by (simp add: toggleTryAll_def startAutoTry_def runAutoStep_def setTimeout_def midRun_def
      Let_def)

lemma timerFires_midRun:
  assumes "preloadedAssets s (currentType s) = Some assets" and "Suc k < length assets"
  shows "timerFires (midRun s assets k) = midRun s assets (Suc k)"
  using assms
  by (simp add: timerFires_def autoStepCallback_def captureToGallery_def runAutoStep_def
      setTimeout_def midRun_def Let_def snapshotWith_def take_Suc_conv_app_nth)

lemma fireTimers_midRun:
  assumes ct: "currentType s \<noteq> []"
    and pa: "preloadedAssets s (currentType s) = Some assets"
    and nr: "\<not> autoTryRunning s" and pend: "pendingTimers s = []"
  shows "k < length assets \<Longrightarrow> fireTimers k (toggleTryAll s) = midRun s assets k"
proof (induction k)
  case 0
  then show ?case using toggleTryAll_starts [OF ct pa nr pend] by simp
next
  case (Suc k)
  then have "fireTimers k (toggleTryAll s) = midRun s assets k" by simp
  then show ?case
    using timerFires_midRun [OF pa Suc.prems] by (simp only: fireTimers_Suc)
qed


lemma timerFires_midRun_last:
  assumes "preloadedAssets s (currentType s) = Some assets" and "Suc k = length assets"
  shows "timerFires (midRun s assets k) =
           (midRun s assets k)
             \<lparr>autoTryRunning := False,
              autoSnapshots := map (snapshotWith s) assets,
              autoTryIndex := length assets,
              pendingTimers := [],
              galleryShown := galleryShown s @ [map (snapshotWith s) assets]\<rparr>"
proof -
  have "k < length assets" using assms(2) by simp
  then have "take k assets @ [assets ! k] = take (Suc k) assets"
    by (simp add: take_Suc_conv_app_nth)
  then have "take k assets @ [assets ! k] = assets"
    using assms(2) by simp
  then have "map (snapshotWith s) (take k assets @ [assets ! k]) = map (snapshotWith s) assets"
    by simp
  then have "map (snapshotWith s) (take k assets) @ [snapshotWith s (assets ! k)] =
      map (snapshotWith s) assets"
    by simp
  moreover have "assets \<noteq> []" using assms(2) by auto
  ultimately show ?thesis
    using assms
    by (cases "str_includes (currentType s) ''earrings''")
       (simp_all add: timerFires_def autoStepCallback_def captureToGallery_def
         runAutoStep_def stopAutoTry_def clearTimeout_def showGallery_def midRun_def Let_def
         snapshotWith_def)
qed

lemma toggleTryAll_midRun:
  assumes "currentType s \<noteq> []"
  shows "toggleTryAll (midRun s assets k) =
           (midRun s assets k)
             \<lparr>autoTryRunning := False,
              pendingTimers := [],
              galleryShown :=
                (if 0 < length (take k assets)
                 then galleryShown s @ [map (snapshotWith s) (take k assets)]
                 else galleryShown s)\<rparr>"
  using assms
  by (simp add: toggleTryAll_def stopAutoTry_def clearTimeout_def showGallery_def midRun_def
      Let_def)

lemma fireTimers_idle: "pendingTimers s = [] \<Longrightarrow> fireTimers m s = s"
  by (induction m) (simp_all add: timerFires_def)

text \<open>
  Claim C1. A category is selected, its catalog \<open>assets\<close> is cached, no run is
  active and no timer is pending. After \<open>toggleTryAll\<close> and one timer expiry per
  catalog item, the collection holds one snapshot per item, in catalog order, each taken
  with that item in the slot of the category; the run is over (the flag is false and no
  timer is pending). Before that, after \<open>k\<close> expiries the run is active, has taken
  \<open>k\<close> snapshots and shows item \<open>k\<close>.
\<close>

theorem auto_capture_complete:
  assumes ct: "currentType s \<noteq> []"
    and pa: "preloadedAssets s (currentType s) = Some assets"
    and nr: "\<not> autoTryRunning s" and pend: "pendingTimers s = []"
  shows "autoSnapshots (fireTimers (length assets) (toggleTryAll s)) =
           map (snapshotWith s) assets
         \<and> length (autoSnapshots (fireTimers (length assets) (toggleTryAll s))) =
             length assets
         \<and> \<not> autoTryRunning (fireTimers (length assets) (toggleTryAll s))
         \<and> pendingTimers (fireTimers (length assets) (toggleTryAll s)) = []
         \<and> (\<forall>k < length assets.
               autoTryRunning (fireTimers k (toggleTryAll s))
               \<and> autoTryIndex (fireTimers k (toggleTryAll s)) = k
               \<and> length (autoSnapshots (fireTimers k (toggleTryAll s))) = k
               \<and> currentImg (fireTimers k (toggleTryAll s)) = Img (assets ! k))"
proof -
  have mid: "fireTimers k (toggleTryAll s) = midRun s assets k" if "k < length assets" for k
    using fireTimers_midRun [OF ct pa nr pend that] .
  have during: "autoTryRunning (midRun s assets k) \<and> autoTryIndex (midRun s assets k) = k
      \<and> length (autoSnapshots (midRun s assets k)) = k
      \<and> currentImg (midRun s assets k) = Img (assets ! k)" if "k < length assets" for k
    using that by (simp add: midRun_def currentImg_def Let_def)
  have fin: "autoSnapshots (fireTimers (length assets) (toggleTryAll s)) =
               map (snapshotWith s) assets
             \<and> \<not> autoTryRunning (fireTimers (length assets) (toggleTryAll s))
             \<and> pendingTimers (fireTimers (length assets) (toggleTryAll s)) = []"
  proof (cases "length assets")
    case 0
    then show ?thesis
      using ct pa nr pend
      by (simp add: toggleTryAll_def startAutoTry_def runAutoStep_def stopAutoTry_def
          clearTimeout_def Let_def split: option.splits)
  next
    case (Suc k)
    then have "fireTimers (length assets) (toggleTryAll s) = timerFires (midRun s assets k)"
      using mid [of k] by (simp only: fireTimers_Suc)
    then show ?thesis
      using timerFires_midRun_last [OF pa Suc [symmetric]] by simp
  qed
  show ?thesis using fin mid during by simp
qed

text \<open>An instance: the six diamond necklaces.\<close>

theorem auto_capture_complete_witness:
  "currentType necklacesSelected \<noteq> []
   \<and> preloadedAssets necklacesSelected (currentType necklacesSelected) =
       Some diamondNecklaces
   \<and> \<not> autoTryRunning necklacesSelected \<and> pendingTimers necklacesSelected = []
   \<and> autoSnapshots (fireTimers (length diamondNecklaces) (toggleTryAll necklacesSelected)) =
       map (snapshotWith necklacesSelected) diamondNecklaces
   \<and> length (autoSnapshots
         (fireTimers (length diamondNecklaces) (toggleTryAll necklacesSelected))) = 6
   \<and> \<not> autoTryRunning (fireTimers (length diamondNecklaces) (toggleTryAll necklacesSelected))"
proof -
  have ct: "currentType necklacesSelected \<noteq> []" by (simp add: necklacesSelected_facts)
  have pa: "preloadedAssets necklacesSelected (currentType necklacesSelected) =
      Some diamondNecklaces"
    by (simp add: necklacesSelected_facts)
  have nr: "\<not> autoTryRunning necklacesSelected" by (rule necklacesSelected_facts)
  have pend: "pendingTimers necklacesSelected = []" by (rule necklacesSelected_facts)
  note r = auto_capture_complete [OF ct pa nr pend]
  from r have c1: "autoSnapshots
      (fireTimers (length diamondNecklaces) (toggleTryAll necklacesSelected)) =
        map (snapshotWith necklacesSelected) diamondNecklaces"
    by (rule conjunct1)
  from r have "length (autoSnapshots
      (fireTimers (length diamondNecklaces) (toggleTryAll necklacesSelected))) =
        length diamondNecklaces"
    by blast
  then have c2: "length (autoSnapshots
      (fireTimers (length diamondNecklaces) (toggleTryAll necklacesSelected))) = 6"
    by (simp only: diamondNecklaces_facts)
  from r have c3: "\<not> autoTryRunning
      (fireTimers (length diamondNecklaces) (toggleTryAll necklacesSelected))"
    by blast
  show ?thesis using ct pa nr pend c1 c2 c3 by blast
qed

text \<open>
  Claim C5. A run that is toggled off after \<open>k\<close> timer expiries, with \<open>k\<close> less
  than the length of the catalog, leaves exactly the first \<open>k\<close> snapshots. The
  pending timer is cleared, so later expiries change nothing, and the gallery is shown
  on exit exactly when \<open>k\<close> is positive.
\<close>

theorem auto_capture_cancelled:
  assumes ct: "currentType s \<noteq> []"
    and pa: "preloadedAssets s (currentType s) = Some assets"
    and nr: "\<not> autoTryRunning s" and pend: "pendingTimers s = []"
    and k: "k < length assets"
  shows "autoSnapshots (toggleTryAll (fireTimers k (toggleTryAll s))) =
           map (snapshotWith s) (take k assets)
         \<and> length (autoSnapshots (toggleTryAll (fireTimers k (toggleTryAll s)))) = k
         \<and> \<not> autoTryRunning (toggleTryAll (fireTimers k (toggleTryAll s)))
         \<and> pendingTimers (toggleTryAll (fireTimers k (toggleTryAll s))) = []
         \<and> fireTimers m (toggleTryAll (fireTimers k (toggleTryAll s))) =
             toggleTryAll (fireTimers k (toggleTryAll s))
         \<and> galleryShown (toggleTryAll (fireTimers k (toggleTryAll s))) =
             (if 0 < k
              then galleryShown s @ [autoSnapshots (toggleTryAll (fireTimers k (toggleTryAll s)))]
              else galleryShown s)"
proof -
  let ?c = "toggleTryAll (fireTimers k (toggleTryAll s))"
  have mid: "fireTimers k (toggleTryAll s) = midRun s assets k"
    using fireTimers_midRun [OF ct pa nr pend k] .
  have c: "?c = (midRun s assets k)
             \<lparr>autoTryRunning := False,
              pendingTimers := [],
              galleryShown :=
                (if 0 < length (take k assets)
                 then galleryShown s @ [map (snapshotWith s) (take k assets)]
                 else galleryShown s)\<rparr>"
    using toggleTryAll_midRun [OF ct, of assets k] mid by simp
  have snaps: "autoSnapshots ?c = map (snapshotWith s) (take k assets)"
    by (subst c) (simp add: midRun_def Let_def)
  have len: "length (autoSnapshots ?c) = k" using snaps k by simp
  have idle: "\<not> autoTryRunning ?c" by (subst c) simp
  have none: "pendingTimers ?c = []" by (subst c) simp
  have stay: "fireTimers m ?c = ?c" using none by (rule fireTimers_idle)
  have gal: "galleryShown ?c =
      (if 0 < k then galleryShown s @ [autoSnapshots ?c] else galleryShown s)"
    using k by (subst c, subst snaps) simp
  show ?thesis using snaps len idle none stay gal by blast
qed

text \<open>An instance: the run over the diamond necklaces, stopped after two captures.\<close>

theorem auto_capture_cancelled_witness:
  "currentType necklacesSelected \<noteq> []
   \<and> preloadedAssets necklacesSelected (currentType necklacesSelected) =
       Some diamondNecklaces
   \<and> \<not> autoTryRunning necklacesSelected \<and> pendingTimers necklacesSelected = []
   \<and> 2 < length diamondNecklaces
   \<and> length (autoSnapshots (toggleTryAll (fireTimers 2 (toggleTryAll necklacesSelected)))) = 2
   \<and> pendingTimers (toggleTryAll (fireTimers 2 (toggleTryAll necklacesSelected))) = []
   \<and> galleryShown (toggleTryAll (fireTimers 2 (toggleTryAll necklacesSelected))) =
       galleryShown necklacesSelected @
         [autoSnapshots (toggleTryAll (fireTimers 2 (toggleTryAll necklacesSelected)))]"
proof -
  have ct: "currentType necklacesSelected \<noteq> []" by (simp add: necklacesSelected_facts)
  have pa: "preloadedAssets necklacesSelected (currentType necklacesSelected) =
      Some diamondNecklaces"
    by (simp add: necklacesSelected_facts)
  have nr: "\<not> autoTryRunning necklacesSelected" by (rule necklacesSelected_facts)
  have pend: "pendingTimers necklacesSelected = []" by (rule necklacesSelected_facts)
  have k: "2 < length diamondNecklaces" by (simp add: diamondNecklaces_facts)
  note r = auto_capture_cancelled [OF ct pa nr pend k, of 0]
  from r have c1:
    "length (autoSnapshots (toggleTryAll (fireTimers 2 (toggleTryAll necklacesSelected)))) = 2"
    by blast
  from r have c2:
    "pendingTimers (toggleTryAll (fireTimers 2 (toggleTryAll necklacesSelected))) = []"
    by blast
  from r have c3:
    "galleryShown (toggleTryAll (fireTimers 2 (toggleTryAll necklacesSelected))) =
       (if 0 < (2::nat)
        then galleryShown necklacesSelected @
          [autoSnapshots (toggleTryAll (fireTimers 2 (toggleTryAll necklacesSelected)))]
        else galleryShown necklacesSelected)"
    by blast
  then have c4:
    "galleryShown (toggleTryAll (fireTimers 2 (toggleTryAll necklacesSelected))) =
       galleryShown necklacesSelected @
         [autoSnapshots (toggleTryAll (fireTimers 2 (toggleTryAll necklacesSelected)))]"
    by simp
  show ?thesis using ct pa nr pend k c1 c2 c4 by blast
qed

subsection \<open>Swipe recognition\<close>

lemma onResults_event:
  "fst (onResults r s) =
     (case handX r of
        None \<Rightarrow> None
      | Some x \<Rightarrow>
          if autoTryRunning s \<or> now r - lastGestureTime s < GESTURE_COOLDOWN then None
          else (case previousHandX s of
                  None \<Rightarrow> None
                | Some p \<Rightarrow>
                    if dlt (dsub x p) (dneg SWIPE_THRESHOLD) then Some 1
                    else if dlt SWIPE_THRESHOLD (dsub x p) then Some (- 1)
                    else None))"
  by (simp add: onResults_def updateHandIndicator_def Let_def split: option.splits)

lemma onResults_lost:
  "handX r = None \<Longrightarrow> previousHandX (snd (onResults r s)) = None"
  by (simp add: onResults_def updateHandIndicator_def Let_def)

lemma onResults_fired:
  "fst (onResults r s) \<noteq> None \<Longrightarrow>
     previousHandX (snd (onResults r s)) = None \<and> lastGestureTime (snd (onResults r s)) = now r"
  by (auto simp: onResults_def updateHandIndicator_def Let_def split: option.splits if_splits)

lemma navigateJewelry_lastGestureTime [simp]:
  "lastGestureTime (navigateJewelry dir s) = lastGestureTime s"
  by (simp add: navigateJewelry_def Let_def split: option.splits)

lemma onResults_quiet:
  "fst (onResults r s) = None \<Longrightarrow> lastGestureTime (snd (onResults r s)) = lastGestureTime s"
  by (auto simp: onResults_def updateHandIndicator_def Let_def split: option.splits if_splits)

lemma onResults_cooldown:
  "fst (onResults r s) \<noteq> None \<Longrightarrow> lastGestureTime s + GESTURE_COOLDOWN \<le> now r"
  by (auto simp: onResults_event split: option.splits if_splits)

lemma onResults_kept:
  "handX r = Some x \<Longrightarrow>
     autoTryRunning s \<or> now r - lastGestureTime s < GESTURE_COOLDOWN \<Longrightarrow>
     previousHandX (snd (onResults r s)) = previousHandX s"
  by (auto simp: onResults_def updateHandIndicator_def Let_def)

lemma onResults_set:
  "handX r = Some x \<Longrightarrow> \<not> autoTryRunning s \<Longrightarrow>
     GESTURE_COOLDOWN \<le> now r - lastGestureTime s \<Longrightarrow> fst (onResults r s) = None \<Longrightarrow>
     previousHandX (snd (onResults r s)) = Some x"
  by (auto simp: onResults_def updateHandIndicator_def Let_def GESTURE_COOLDOWN_def
      split: option.splits if_splits)

lemma onResults_baseline:
  "previousHandX (snd (onResults r s)) =
     (case handX r of
        None \<Rightarrow> None
      | Some x \<Rightarrow>
          if autoTryRunning s \<or> now r - lastGestureTime s < GESTURE_COOLDOWN
          then previousHandX s
          else if fst (onResults r s) \<noteq> None then None
          else Some x)"
proof (cases "handX r")
  case None
  then show ?thesis using onResults_lost [of r s] by simp
next
  case (Some x)
  show ?thesis
  proof (cases "autoTryRunning s \<or> now r - lastGestureTime s < GESTURE_COOLDOWN")
    case True
    then show ?thesis using Some onResults_kept [of r x s] by simp
  next
    case False
    then show ?thesis
      using Some onResults_fired [of r s] onResults_set [of r x s]
      by (cases "fst (onResults r s) = None") simp_all
  qed
qed

lemma beyond_threshold: "dlt t (dabs d) \<longleftrightarrow> dlt d (dneg t) \<or> dlt t d"
  by (cases t; cases d) auto

lemma SWIPE_THRESHOLD_value:
  "SWIPE_THRESHOLD = Finite (5764607523034235 / 144115188075855872)"
  by code_simp

text \<open>
  The rounding at some known values: the doubles written \<open>0.1\<close> and \<open>0.4\<close>,
  two ties between neighbouring doubles, which go to the even one, and the differences
  \<open>0.4 - 0.5\<close> and \<open>0.1 - 0.3\<close>, which print as -0.09999999999999998 and
  -0.19999999999999998.
\<close>

lemma round64_samples:
  "round64 (1 / 10) = Finite (3602879701896397 / 2 ^ 55)"
  "round64 (4 / 10) = Finite (3602879701896397 / 2 ^ 53)"
  "round64 (2 ^ 53 + 1) = Finite (2 ^ 53)"
  "round64 (2 ^ 53 + 3) = Finite (2 ^ 53 + 4)"
  "dsub (round64 (4 / 10)) (round64 (5 / 10)) = Finite (- (900719925474099 / 2 ^ 53))"
  "dsub (round64 (1 / 10)) (round64 (3 / 10)) = Finite (- (7205759403792793 / 2 ^ 55))"
  by code_simp+

text \<open>
  The handler at the threshold, with a baseline at 0.5 and no run active: the hand at
  the double written \<open>0.54\<close> makes a swipe, since the rounded difference is
  0.040000000000000036.
\<close>

lemma onResults_past_threshold:
  "dsub (round64 (54 / 100)) (Finite (1 / 2)) = Finite (45035996273705 / 1125899906842624)"
  "fst (onResults pastThreshold baselineTracked) = Some (- 1)"
  by code_simp+

text \<open>
  Claim C2, as the script has it. The handler emits a swipe on a result if and only if
  no auto capture run is active, the result has a hand, a baseline is tracked
  (\<open>previousHandX\<close> is not null), the difference between the position and the
  baseline, rounded to a double as the script computes it, is beyond the threshold in
  either direction (its absolute value is greater than the threshold), and the clock is
  at least 800 ms past \<open>lastGestureTime\<close>. The threshold is the double written
  \<open>0.04\<close>, which is 5764607523034235 / 2^57 and a little more than 1/25.

  \<open>previousHandX\<close> is the baseline in the sense of the claim. A result without a hand
  clears it. A result with a hand leaves it as it is while a run is active or the
  cooldown has not passed; otherwise an emitted swipe clears it, and a result that
  emits nothing makes its own position the baseline. \<open>lastGestureTime\<close> is the time
  of the last swipe (0 on a fresh page): a swipe sets it to the clock and nothing else
  in the handler changes it.
\<close>

theorem swipe_iff:
  "(fst (onResults r s) \<noteq> None \<longleftrightarrow>
      \<not> autoTryRunning s
      \<and> (case (handX r, previousHandX s) of
            (Some x, Some b) \<Rightarrow> dlt SWIPE_THRESHOLD (dabs (dsub x b))
          | _ \<Rightarrow> False)
      \<and> now r - lastGestureTime s \<ge> GESTURE_COOLDOWN)
   \<and> SWIPE_THRESHOLD = Finite (5764607523034235 / 2 ^ 57)
   \<and> previousHandX (snd (onResults r s)) =
       (case handX r of
          None \<Rightarrow> None
        | Some x \<Rightarrow>
            if autoTryRunning s \<or> now r - lastGestureTime s < GESTURE_COOLDOWN
            then previousHandX s
            else if fst (onResults r s) \<noteq> None then None
            else Some x)
   \<and> (fst (onResults r s) \<noteq> None \<longrightarrow>
        lastGestureTime (snd (onResults r s)) = now r)
   \<and> (fst (onResults r s) = None \<longrightarrow>
        lastGestureTime (snd (onResults r s)) = lastGestureTime s)"
proof -
  have iff: "fst (onResults r s) \<noteq> None \<longleftrightarrow>
      \<not> autoTryRunning s
      \<and> (case (handX r, previousHandX s) of
            (Some x, Some b) \<Rightarrow> dlt SWIPE_THRESHOLD (dabs (dsub x b))
          | _ \<Rightarrow> False)
      \<and> now r - lastGestureTime s \<ge> GESTURE_COOLDOWN"
    by (auto simp: onResults_event beyond_threshold split: option.splits)
  have thr: "SWIPE_THRESHOLD = Finite (5764607523034235 / 2 ^ 57)"
    using SWIPE_THRESHOLD_value by simp
  show ?thesis
    using iff thr onResults_baseline [of r s] onResults_fired [of r s]
      onResults_quiet [of r s]
    by blast
qed

text \<open>
  Two instances with no run active: with a baseline at 0.5 the hand at 0.25 makes a
  swipe, and with no baseline the same result makes 0.25 the baseline.
\<close>

theorem swipe_iff_witness:
  "\<not> autoTryRunning baselineTracked
   \<and> previousHandX baselineTracked = Some (Finite (1 / 2))
   \<and> now swipeLeft - lastGestureTime baselineTracked \<ge> GESTURE_COOLDOWN
   \<and> fst (onResults swipeLeft baselineTracked) \<noteq> None
   \<and> previousHandX (snd (onResults swipeLeft baselineTracked)) = None
   \<and> lastGestureTime (snd (onResults swipeLeft baselineTracked)) = now swipeLeft
   \<and> previousHandX earringsSelected = None
   \<and> fst (onResults swipeLeft earringsSelected) = None
   \<and> previousHandX (snd (onResults swipeLeft earringsSelected)) = Some (Finite (1 / 4))"
proof -
  have nr: "\<not> autoTryRunning baselineTracked" by code_simp
  have base: "previousHandX baselineTracked = Some (Finite (1 / 2))" by code_simp
  have hand: "handX swipeLeft = Some (Finite (1 / 4))" by (simp add: swipeLeft_def)
  have cool: "now swipeLeft - lastGestureTime baselineTracked \<ge> GESTURE_COOLDOWN"
    by code_simp
  have "dlt SWIPE_THRESHOLD (dabs (dsub (Finite (1 / 4)) (Finite (1 / 2))))"
    by code_simp
  then have far: "(case (handX swipeLeft, previousHandX baselineTracked) of
               (Some x, Some b) \<Rightarrow> dlt SWIPE_THRESHOLD (dabs (dsub x b))
             | _ \<Rightarrow> False)"
    by (simp add: hand base)
  note r = swipe_iff [of swipeLeft baselineTracked]
  from r nr far cool have fired: "fst (onResults swipeLeft baselineTracked) \<noteq> None"
    by blast
  from r have "previousHandX (snd (onResults swipeLeft baselineTracked)) =
       (case handX swipeLeft of
          None \<Rightarrow> None
        | Some x \<Rightarrow>
            if autoTryRunning baselineTracked
               \<or> now swipeLeft - lastGestureTime baselineTracked < GESTURE_COOLDOWN
            then previousHandX baselineTracked
            else if fst (onResults swipeLeft baselineTracked) \<noteq> None then None
            else Some x)"
    by blast
  with hand nr cool fired
  have cleared: "previousHandX (snd (onResults swipeLeft baselineTracked)) = None"
    by simp
  from r fired
  have stamped: "lastGestureTime (snd (onResults swipeLeft baselineTracked)) = now swipeLeft"
    by blast
  have nr': "\<not> autoTryRunning earringsSelected" by (rule earringsSelected_facts)
  have none: "previousHandX earringsSelected = None" by code_simp
  have cool': "now swipeLeft - lastGestureTime earringsSelected \<ge> GESTURE_COOLDOWN"
    by code_simp
  note r' = swipe_iff [of swipeLeft earringsSelected]
  from r' none have quiet: "fst (onResults swipeLeft earringsSelected) = None"
    by (simp add: hand)
  from r' have "previousHandX (snd (onResults swipeLeft earringsSelected)) =
       (case handX swipeLeft of
          None \<Rightarrow> None
        | Some x \<Rightarrow>
            if autoTryRunning earringsSelected
               \<or> now swipeLeft - lastGestureTime earringsSelected < GESTURE_COOLDOWN
            then previousHandX earringsSelected
            else if fst (onResults swipeLeft earringsSelected) \<noteq> None then None
            else Some x)"
    by blast
  with hand nr' cool' quiet
  have set: "previousHandX (snd (onResults swipeLeft earringsSelected)) =
      Some (Finite (1 / 4))"
    by simp
  show ?thesis using nr base cool fired cleared stamped none quiet set by blast
qed

text \<open>
  Claim C2 as the specification words it, refuted twice. First, the three conditions
  of the claim do not suffice: with a baseline at 0.5 tracked before an auto capture
  run was started, a result with the hand at 0.25, long after the last swipe, emits
  nothing while the run is active, although the positions differ by 0.25. Second, the
  bound is the double written \<open>0.04\<close> and not the number 0.04: with a baseline at 0
  and no run active, the hand at 5764607523034235 / 2^57 is more than 0.04 away from
  the baseline and emits nothing.
\<close>

theorem swipe_iff_counterexample:
  "autoTryRunning runningWithBaseline
   \<and> previousHandX runningWithBaseline = Some (Finite (1 / 2))
   \<and> handX swipeLeft = Some (Finite (1 / 4))
   \<and> \<bar>1 / 4 - 1 / 2\<bar> > (4 / 100 :: rat)
   \<and> dlt SWIPE_THRESHOLD (dabs (dsub (Finite (1 / 4)) (Finite (1 / 2))))
   \<and> now swipeLeft - lastGestureTime runningWithBaseline \<ge> GESTURE_COOLDOWN
   \<and> fst (onResults swipeLeft runningWithBaseline) = None
   \<and> \<not> autoTryRunning baselineAtZero
   \<and> previousHandX baselineAtZero = Some (Finite 0)
   \<and> handX atThreshold = Some (Finite (5764607523034235 / 2 ^ 57))
   \<and> \<bar>5764607523034235 / 2 ^ 57 - 0\<bar> > (4 / 100 :: rat)
   \<and> now atThreshold - lastGestureTime baselineAtZero \<ge> GESTURE_COOLDOWN
   \<and> fst (onResults atThreshold baselineAtZero) = None"
  by code_simp

lemma handStream_spaced:
  "sorted_wrt (\<lambda>a b. a + GESTURE_COOLDOWN \<le> b) (fst (handStream rs s))
   \<and> (\<forall>t \<in> set (fst (handStream rs s)). lastGestureTime s + GESTURE_COOLDOWN \<le> t)"
proof (induction rs arbitrary: s)
  case Nil
  then show ?case by simp
next
  case (Cons r rs)
  obtain ev s1 where o: "onResults r s = (ev, s1)" by (cases "onResults r s")
  obtain ts s2 where h: "handStream rs s1 = (ts, s2)" by (cases "handStream rs s1")
  from Cons.IH [of s1] h
  have sp: "sorted_wrt (\<lambda>a b. a + GESTURE_COOLDOWN \<le> b) ts"
    and lb: "\<forall>t \<in> set ts. lastGestureTime s1 + GESTURE_COOLDOWN \<le> t"
    by simp_all
  show ?case
  proof (cases ev)
    case None
    then have "lastGestureTime s1 = lastGestureTime s"
      using onResults_quiet [of r s] o by simp
    then show ?thesis using o h None sp lb by simp
  next
    case (Some d)
    then have l1: "lastGestureTime s1 = now r"
      and cd: "lastGestureTime s + GESTURE_COOLDOWN \<le> now r"
      using onResults_fired [of r s] onResults_cooldown [of r s] o by simp_all
    have pos: "0 \<le> GESTURE_COOLDOWN" by (simp add: GESTURE_COOLDOWN_def)
    have "\<forall>t \<in> set ts. lastGestureTime s + GESTURE_COOLDOWN \<le> t"
      using lb l1 cd pos by fastforce
    then show ?thesis using o h Some sp lb l1 cd by simp
  qed
qed

text \<open>
  Claim C3. Over any stream of detector results with non-decreasing clock values, any
  two swipes are at least 800 ms apart. (\<open>handStream_spaced\<close> shows that the order
  of the clock values is not needed.)
\<close>

theorem swipes_cooldown_apart:
  assumes "sorted (map now rs)"
    and "i < j" and "j < length (fst (handStream rs s))"
  shows "fst (handStream rs s) ! j - fst (handStream rs s) ! i \<ge> GESTURE_COOLDOWN"
proof -
  have "sorted_wrt (\<lambda>a b. a + GESTURE_COOLDOWN \<le> b) (fst (handStream rs s))"
    using handStream_spaced [of rs s] by simp
  then have "fst (handStream rs s) ! i + GESTURE_COOLDOWN \<le> fst (handStream rs s) ! j"
    using assms(2,3) by (simp add: sorted_wrt_iff_nth_less)
  then show ?thesis by simp
qed

text \<open>An instance: four results that make two swipes, 900 ms apart.\<close>

theorem swipes_cooldown_apart_witness:
  "sorted (map now twoSwipes)
   \<and> fst (handStream twoSwipes init_state) = [1000050, 1000950]
   \<and> fst (handStream twoSwipes init_state) ! 1 - fst (handStream twoSwipes init_state) ! 0
       \<ge> GESTURE_COOLDOWN"
proof -
  have mono: "sorted (map now twoSwipes)" by (simp add: twoSwipes_def)
  have evs: "fst (handStream twoSwipes init_state) = [1000050, 1000950]" by code_simp
  have ij: "(0::nat) < 1" by simp
  have j: "1 < length (fst (handStream twoSwipes init_state))" by (simp add: evs)
  show ?thesis
    using mono evs swipes_cooldown_apart [OF mono ij j] by blast
qed

end
